theory Spec2Isabelle
  imports Main
begin

text \<open>
  A shallow embedding of the pre-commit hook scripts under \<^verbatim>\<open>src/hooks\<close>. Each Python
  function is a HOL function of the same name. What the scripts take from their
  environment is made explicit:
  \<^item> a Python \<^verbatim>\<open>str\<close> is a \<^typ>\<open>string\<close>; a \<^typ>\<open>char\<close> stands for the code point of
    the same number, so the model covers text whose code points are below 256;
  \<^item> the file system is a function from a path to the decoded text of the file, or to
    the exception that opening or reading it raises; a read is atomic (it delivers the
    whole text or raises before any of it is seen);
  \<^item> what a script prints is returned as a list of output lines;
  \<^item> the library functions the scripts call (\<^verbatim>\<open>re\<close>, \<^verbatim>\<open>base64\<close>, the UTF-8 decoder) are
    modelled for the constructs the scripts use.
\<close>

section \<open>Text\<close>

text \<open>
  The string operations of Python that the scripts use: \<^verbatim>\<open>isspace\<close> is \<^verbatim>\<open>str.isspace\<close> of
  one character (also the class \<^verbatim>\<open>\s\<close>), \<^verbatim>\<open>isdigit\<close> is the class \<^verbatim>\<open>\d\<close>, \<^verbatim>\<open>lower\<close> and
  \<^verbatim>\<open>upper\<close> are \<^verbatim>\<open>str.lower\<close> and \<^verbatim>\<open>str.upper\<close> (the latter on ASCII text, where the scripts
  use it), \<^verbatim>\<open>strip\<close> is \<^verbatim>\<open>s.strip()\<close> and \<^verbatim>\<open>strip_chars\<close> is \<^verbatim>\<open>s.strip(chars)\<close>, \<^verbatim>\<open>contains s sub\<close>
  is \<^verbatim>\<open>sub in s\<close>, \<^verbatim>\<open>split_on\<close> is \<^verbatim>\<open>s.split(sep)\<close> for a separator of one character, and
  \<^verbatim>\<open>readlines\<close> gives the lines that iterating over an open text file yields, each with
  its newline.
\<close>

definition code :: "char \<Rightarrow> nat" where
  "code c = of_char c"

definition newline :: char where
  "newline = CHR 0x0A"

definition isspace :: "char \<Rightarrow> bool" where
  "isspace c = (let n = code c in (9 \<le> n \<and> n \<le> 13) \<or> (28 \<le> n \<and> n \<le> 32) \<or> n = 133 \<or> n = 160)"

definition isdigit :: "char \<Rightarrow> bool" where
  "isdigit c = (let n = code c in 48 \<le> n \<and> n \<le> 57)"

definition lower_char :: "char \<Rightarrow> char" where
  "lower_char c = (let n = code c in
     if (65 \<le> n \<and> n \<le> 90) \<or> (192 \<le> n \<and> n \<le> 222 \<and> n \<noteq> 215) then char_of (n + 32) else c)"

definition upper_char :: "char \<Rightarrow> char" where
  "upper_char c = (let n = code c in
     if (97 \<le> n \<and> n \<le> 122) \<or> (224 \<le> n \<and> n \<le> 254 \<and> n \<noteq> 247) then char_of (n - 32) else c)"

definition lower :: "string \<Rightarrow> string" where
  "lower s = map lower_char s"


definition strip_chars :: "(char \<Rightarrow> bool) \<Rightarrow> string \<Rightarrow> string" where
  "strip_chars P s = rev (dropWhile P (rev (dropWhile P s)))"

definition strip :: "string \<Rightarrow> string" where
  "strip s = strip_chars isspace s"

fun startswith :: "string \<Rightarrow> string \<Rightarrow> bool" where
  "startswith s [] = True"
| "startswith [] (p # ps) = False"
| "startswith (c # cs) (p # ps) = (c = p \<and> startswith cs ps)"

definition endswith :: "string \<Rightarrow> string \<Rightarrow> bool" where
  "endswith s suffix = startswith (rev s) (rev suffix)"

fun contains :: "string \<Rightarrow> string \<Rightarrow> bool" where
  "contains [] sub = (sub = [])"
| "contains (c # cs) sub = (startswith (c # cs) sub \<or> contains cs sub)"

fun split_on :: "char \<Rightarrow> string \<Rightarrow> string list" where
  "split_on d [] = [[]]"
| "split_on d (c # cs) =
     (case split_on d cs of
        [] \<Rightarrow> [[c]]
      | w # ws \<Rightarrow> if c = d then [] # w # ws else (c # w) # ws)"

fun readlines :: "string \<Rightarrow> string list" where
  "readlines [] = []"
| "readlines (c # cs) =
     (if c = newline then [c] # readlines cs
      else (case readlines cs of
              [] \<Rightarrow> [[c]]
            | l # ls \<Rightarrow> (c # l) # ls))"

section \<open>Regular expressions\<close>

text \<open>
  The patterns of the scripts use literals, \<^verbatim>\<open>.\<close>, character classes, \<^verbatim>\<open>^\<close> and \<^verbatim>\<open>$\<close>,
  sequence, alternation, greedy repetition and negative lookahead. \<^verbatim>\<open>rmatch\<close> follows the
  backtracking matcher of \<^verbatim>\<open>re\<close>: matching a pattern at a position gives the remainders of
  the subject after each way to match, in the order in which the matcher tries them, so
  the first one is the match that \<^verbatim>\<open>re\<close> returns. A repetition tries one more round before
  it stops, and a round that consumes nothing ends it. \<^verbatim>\<open>re_match\<close> matches at the
  start, \<^verbatim>\<open>re_search\<close> at the first position that matches, and \<^verbatim>\<open>re_finditer\<close> gives the texts
  of the successive matches from left to right; after an empty match it moves on by one
  character (no pattern the scripts iterate over matches the empty string). Under
  \<^verbatim>\<open>IGNORECASE\<close> a character matches a literal when both have the same lower case, and a
  range when its lower or upper case lies in it.
\<close>

datatype cls_item = Ch char | Rng char char | Space | Digit

datatype regex =
    Lit string
  | Dot
  | Cls "cls_item list"
  | NCls "cls_item list"
  | Bol
  | Eol
  | Seq regex regex
  | Alt regex regex
  | Rep regex nat "nat option"
  | NotAhead regex

record flags =
  ignorecase :: bool
  multiline :: bool

definition no_flags :: flags where
  "no_flags = \<lparr>ignorecase = False, multiline = False\<rparr>"

definition IGNORECASE :: flags where
  "IGNORECASE = \<lparr>ignorecase = True, multiline = False\<rparr>"

definition IGNORECASE_MULTILINE :: flags where
  "IGNORECASE_MULTILINE = \<lparr>ignorecase = True, multiline = True\<rparr>"

definition char_eq :: "bool \<Rightarrow> char \<Rightarrow> char \<Rightarrow> bool" where
  "char_eq ic p x = (if ic then lower_char x = lower_char p else x = p)"

fun item_match :: "bool \<Rightarrow> cls_item \<Rightarrow> char \<Rightarrow> bool" where
  "item_match ic (Ch p) x = char_eq ic p x"
| "item_match ic (Rng lo hi) x =
     (if ic then (code lo \<le> code (lower_char x) \<and> code (lower_char x) \<le> code hi)
              \<or> (code lo \<le> code (upper_char (lower_char x)) \<and> code (upper_char (lower_char x)) \<le> code hi)
      else code lo \<le> code x \<and> code x \<le> code hi)"
| "item_match ic Space x = isspace x"
| "item_match ic Digit x = isdigit x"

definition cls_match :: "bool \<Rightarrow> cls_item list \<Rightarrow> char \<Rightarrow> bool" where
  "cls_match ic items x = list_ex (\<lambda>i. item_match ic i x) items"

fun lit_match :: "bool \<Rightarrow> string \<Rightarrow> string \<Rightarrow> string option" where
  "lit_match ic [] s = Some s"
| "lit_match ic (p # ps) [] = None"
| "lit_match ic (p # ps) (x # xs) = (if char_eq ic p x then lit_match ic ps xs else None)"

fun rsize :: "regex \<Rightarrow> nat" where
  "rsize (Seq a b) = Suc (rsize a + rsize b)"
| "rsize (Alt a b) = Suc (rsize a + rsize b)"
| "rsize (Rep r m mx) = Suc (rsize r)"
| "rsize (NotAhead r) = Suc (rsize r)"
| "rsize r = 0"

definition at_bol :: "flags \<Rightarrow> string \<Rightarrow> string \<Rightarrow> bool" where
  "at_bol f subj s = (length s \<ge> length subj \<or>
      (multiline f \<and> subj ! (length subj - length s - 1) = newline))"

definition at_eol :: "flags \<Rightarrow> string \<Rightarrow> bool" where
  "at_eol f s = (s = [] \<or> s = [newline] \<or> (multiline f \<and> hd s = newline))"

function rmatch :: "flags \<Rightarrow> string \<Rightarrow> regex \<Rightarrow> string \<Rightarrow> string list" where
  "rmatch f subj (Lit p) s = (case lit_match (ignorecase f) p s of None \<Rightarrow> [] | Some t \<Rightarrow> [t])"
| "rmatch f subj Dot s = (case s of [] \<Rightarrow> [] | x # xs \<Rightarrow> if x = newline then [] else [xs])"
| "rmatch f subj (Cls items) s =
     (case s of [] \<Rightarrow> [] | x # xs \<Rightarrow> if cls_match (ignorecase f) items x then [xs] else [])"
| "rmatch f subj (NCls items) s =
     (case s of [] \<Rightarrow> [] | x # xs \<Rightarrow> if cls_match (ignorecase f) items x then [] else [xs])"
| "rmatch f subj Bol s = (if at_bol f subj s then [s] else [])"
| "rmatch f subj Eol s = (if at_eol f s then [s] else [])"
| "rmatch f subj (Seq a b) s = concat (map (rmatch f subj b) (rmatch f subj a s))"
| "rmatch f subj (Alt a b) s = rmatch f subj a s @ rmatch f subj b s"
| "rmatch f subj (Rep r m mx) s =
     (if mx = Some 0 then []
      else concat (map (\<lambda>t. if length t < length s
                              then rmatch f subj (Rep r (m - 1) (map_option (\<lambda>k. k - 1) mx)) t
                              else [])
                       (rmatch f subj r s)))
     @ (if m = 0 then [s] else [])"
| "rmatch f subj (NotAhead r) s = (if rmatch f subj r s = [] then [s] else [])"
  by pat_completeness auto
termination
  by (relation "measures [\<lambda>(f, subj, r, s). rsize r, \<lambda>(f, subj, r, s). length s]") auto

definition first_match :: "flags \<Rightarrow> string \<Rightarrow> regex \<Rightarrow> string \<Rightarrow> string option" where
  "first_match f subj r s =
     (case rmatch f subj r s of [] \<Rightarrow> None | t # ts \<Rightarrow> Some (take (length s - length t) s))"

definition re_match :: "regex \<Rightarrow> string \<Rightarrow> flags \<Rightarrow> bool" where
  "re_match r s f = (first_match f s r s \<noteq> None)"

fun search_from :: "flags \<Rightarrow> string \<Rightarrow> regex \<Rightarrow> string \<Rightarrow> string option" where
  "search_from f subj r [] = first_match f subj r []"
| "search_from f subj r (x # xs) =
     (case first_match f subj r (x # xs) of
        Some m \<Rightarrow> Some m
      | None \<Rightarrow> search_from f subj r xs)"

definition re_search :: "regex \<Rightarrow> string \<Rightarrow> flags \<Rightarrow> string option" where
  "re_search r s f = search_from f s r s"

function finditer_from :: "flags \<Rightarrow> string \<Rightarrow> regex \<Rightarrow> string \<Rightarrow> string list" where
  "finditer_from f subj r s =
     (case first_match f subj r s of
        None \<Rightarrow> (case s of [] \<Rightarrow> [] | x # xs \<Rightarrow> finditer_from f subj r xs)
      | Some m \<Rightarrow>
          (case s of
             [] \<Rightarrow> [m]
           | x # xs \<Rightarrow> m # finditer_from f subj r (if m = [] then xs else drop (length m) (x # xs))))"
  by pat_completeness auto
termination
  by (relation "measure (\<lambda>(f, subj, r, s). length s)") auto

definition re_finditer :: "regex \<Rightarrow> string \<Rightarrow> flags \<Rightarrow> string list" where
  "re_finditer r s f = finditer_from f s r s"


subsection \<open>Writing patterns\<close>

text \<open>
  The pattern tables of the scripts are written with these abbreviations:
  \<^verbatim>\<open>cat [a, b, c]\<close> is the sequence \<^verbatim>\<open>abc\<close>, \<^verbatim>\<open>rep_star r\<close> is \<^verbatim>\<open>r*\<close>, \<^verbatim>\<open>rep_plus r\<close> is
  \<^verbatim>\<open>r+\<close>, \<^verbatim>\<open>rep_opt r\<close> is \<^verbatim>\<open>r?\<close>, \<^verbatim>\<open>at_least k r\<close> is \<^verbatim>\<open>r{k,}\<close>, \<^verbatim>\<open>ws\<close> is \<^verbatim>\<open>\s\<close> and
  \<^verbatim>\<open>quotes\<close> are the two characters of the class \<^verbatim>\<open>["\']\<close>.
\<close>

definition cat :: "regex list \<Rightarrow> regex" where
  "cat rs = foldr Seq rs (Lit [])"

definition chars :: "string \<Rightarrow> cls_item list" where
  "chars s = map Ch s"

definition rep_star :: "regex \<Rightarrow> regex" where
  "rep_star r = Rep r 0 None"

definition rep_plus :: "regex \<Rightarrow> regex" where
  "rep_plus r = Rep r 1 None"

definition rep_opt :: "regex \<Rightarrow> regex" where
  "rep_opt r = Rep r 0 (Some 1)"

definition at_least :: "nat \<Rightarrow> regex \<Rightarrow> regex" where
  "at_least k r = Rep r k None"

definition ws :: regex where
  "ws = Cls [Space]"

definition quotes :: "cls_item list" where
  "quotes = [Ch (CHR 0x22), Ch (CHR 0x27)]"

section \<open>base64 and UTF-8\<close>

text \<open>
  \<^verbatim>\<open>base64.b64decode\<close> of a \<^verbatim>\<open>str\<close> raises on a character that is not ASCII and otherwise
  decodes as \<^verbatim>\<open>binascii.a2b_base64\<close> does when not strict: characters outside the alphabet
  are skipped, a complete padding ends the input, and input that stops inside a group of
  four raises; \<^verbatim>\<open>None\<close> stands for the exception. Bytes are numbers below 256.
  \<^verbatim>\<open>utf8_valid\<close> says whether \<^verbatim>\<open>bytes.decode('utf-8')\<close> succeeds.
\<close>

definition b64_value :: "char \<Rightarrow> nat option" where
  "b64_value c = (let n = code c in
     if 65 \<le> n \<and> n \<le> 90 then Some (n - 65)
     else if 97 \<le> n \<and> n \<le> 122 then Some (n - 71)
     else if 48 \<le> n \<and> n \<le> 57 then Some (n + 4)
     else if n = 43 then Some 62
     else if n = 47 then Some 63
     else None)"

fun a2b_base64 :: "nat \<Rightarrow> nat \<Rightarrow> nat \<Rightarrow> string \<Rightarrow> nat list option" where
  "a2b_base64 quad_pos leftchar pads [] = (if quad_pos \<noteq> 0 then None else Some [])"
| "a2b_base64 quad_pos leftchar pads (c # cs) =
     (if c = CHR ''='' then
        (if quad_pos \<ge> 2 \<and> quad_pos + (pads + 1) \<ge> 4 then Some []
         else a2b_base64 quad_pos leftchar (if quad_pos \<ge> 2 then pads + 1 else pads) cs)
      else case b64_value c of
        None \<Rightarrow> a2b_base64 quad_pos leftchar pads cs
      | Some v \<Rightarrow>
          (if quad_pos = 0 then a2b_base64 1 v 0 cs
           else if quad_pos = 1 then
             map_option ((#) (leftchar * 4 + v div 16)) (a2b_base64 2 (v mod 16) 0 cs)
           else if quad_pos = 2 then
             map_option ((#) (leftchar * 16 + v div 4)) (a2b_base64 3 (v mod 4) 0 cs)
           else
             map_option ((#) (leftchar * 64 + v)) (a2b_base64 0 0 0 cs)))"

definition b64decode :: "string \<Rightarrow> nat list option" where
  "b64decode s = (if list_ex (\<lambda>c. code c > 127) s then None else a2b_base64 0 0 0 s)"

definition cont :: "nat \<Rightarrow> bool" where
  "cont b = (128 \<le> b \<and> b \<le> 191)"

fun utf8_valid :: "nat list \<Rightarrow> bool" where
  "utf8_valid [] = True"
| "utf8_valid (b # bs) =
     (if b \<le> 127 then utf8_valid bs
      else if 194 \<le> b \<and> b \<le> 223 then
        (case bs of c1 # r \<Rightarrow> cont c1 \<and> utf8_valid r | _ \<Rightarrow> False)
      else if 224 \<le> b \<and> b \<le> 239 then
        (case bs of c1 # c2 # r \<Rightarrow>
             cont c1 \<and> cont c2 \<and> (b = 224 \<longrightarrow> 160 \<le> c1) \<and> (b = 237 \<longrightarrow> c1 \<le> 159) \<and> utf8_valid r
         | _ \<Rightarrow> False)
      else if 240 \<le> b \<and> b \<le> 244 then
        (case bs of c1 # c2 # c3 # r \<Rightarrow>
             cont c1 \<and> cont c2 \<and> cont c3 \<and> (b = 240 \<longrightarrow> 144 \<le> c1) \<and> (b = 244 \<longrightarrow> c1 \<le> 143) \<and> utf8_valid r
         | _ \<Rightarrow> False)
      else False)"



section \<open>Files and exceptions\<close>

text \<open>
  An exception carries the text that \<^verbatim>\<open>str\<close> gives of it. All of them are subclasses of
  \<^verbatim>\<open>Exception\<close>, which is what opening, reading and parsing a file raise. A file system
  gives, for a path, the exception that \<^verbatim>\<open>open\<close> or the read raises, or the decoded text
  of the file (decoding with \<^verbatim>\<open>errors='ignore'\<close> never raises).
\<close>

datatype py_exception =
    FileNotFoundError string
  | ParseError string
  | ExpatError string
  | YAMLError string
  | OtherException string

fun str_of :: "py_exception \<Rightarrow> string" where
  "str_of (FileNotFoundError m) = m"
| "str_of (ParseError m) = m"
| "str_of (ExpatError m) = m"
| "str_of (YAMLError m) = m"
| "str_of (OtherException m) = m"

type_synonym filesystem = "string \<Rightarrow> py_exception + string"

section \<open>detect-hardcoded-credentials.py\<close>

text \<open>
  \<^verbatim>\<open>assign\<close> is \<^verbatim>\<open>\s*[:=]\s*\<close>, \<^verbatim>\<open>quoted k\<close> is \<^verbatim>\<open>["\'][^"\']{k,}["\']\<close> and \<^verbatim>\<open>sep\<close> is \<^verbatim>\<open>[_-]?\<close>.
  In \<^verbatim>\<open>extract_credential_value\<close> the group of the first pattern is the match without its
  two quotes, and the group of the second is the match after the separator and the white
  space that follows it. \<^verbatim>\<open>check_match\<close> is the body of the loop over the matches and
  \<^verbatim>\<open>scan_line\<close> the body of the loop over the lines. \<^verbatim>\<open>find_hardcoded_credentials\<close> returns
  the findings and the lines printed to stderr; \<^verbatim>\<open>credentials_main\<close> returns the exit
  code, the lines printed to stdout (one value for each \<^verbatim>\<open>print\<close>, with what it
  interpolates) and those printed to stderr.
\<close>

definition assign :: regex where
  "assign = cat [rep_star ws, Cls (chars '':=''), rep_star ws]"

definition quoted :: "nat \<Rightarrow> regex" where
  "quoted k = cat [Cls quotes, at_least k (NCls quotes), Cls quotes]"

definition sep :: regex where
  "sep = rep_opt (Cls (chars ''_-''))"

definition CREDENTIAL_PATTERNS :: "(string \<times> regex list) list" where
  "CREDENTIAL_PATTERNS = [
    (''password'', [
      cat [Lit ''password'', assign, quoted 3],
      cat [Lit ''pwd'', assign, quoted 3],
      cat [Lit ''passwd'', assign, quoted 3],
      cat [Lit ''secret'', assign, quoted 8]]),
    (''api_key'', [
      cat [Lit ''api'', sep, Lit ''key'', assign, quoted 10],
      cat [Lit ''apikey'', assign, quoted 10],
      cat [Lit ''key'', assign, Cls quotes,
           at_least 20 (Cls [Rng CHR ''A'' CHR ''Z'', Rng CHR ''a'' CHR ''z'', Rng CHR ''0'' CHR ''9'']),
           Cls quotes]]),
    (''token'', [
      cat [Lit ''token'', assign, quoted 10],
      cat [Lit ''auth'', sep, Lit ''token'', assign, quoted 10],
      cat [Lit ''access'', sep, Lit ''token'', assign, quoted 10],
      cat [Lit ''bearer'', assign, quoted 10]]),
    (''database'', [
      cat [Lit ''db'', sep, Lit ''password'', assign, quoted 3],
      cat [Lit ''database'', sep, Lit ''password'', assign, quoted 3],
      cat [Lit ''connection'', sep, Lit ''string'', assign, Cls quotes,
           rep_star (NCls quotes), Lit ''password'', rep_star (NCls quotes), Cls quotes]]),
    (''private_key'', [
      cat [Lit ''private'', sep, Lit ''key'', assign, quoted 20],
      cat [Lit ''-----BEGIN'', rep_plus ws, rep_opt (cat [Lit ''RSA'', rep_plus ws]),
           Lit ''PRIVATE'', rep_plus ws, Lit ''KEY-----''],
      cat [Lit ''-----BEGIN'', rep_plus ws, Lit ''OPENSSH'', rep_plus ws,
           Lit ''PRIVATE'', rep_plus ws, Lit ''KEY-----'']]),
    (''aws'', [
      cat [Lit ''aws'', sep, Lit ''secret'', sep, Lit ''access'', sep, Lit ''key'', assign, quoted 20],
      cat [Lit ''aws'', sep, Lit ''access'', sep, Lit ''key'', sep, Lit ''id'', assign, Cls quotes,
           Lit ''AKIA'', Rep (Cls [Rng CHR ''0'' CHR ''9'', Rng CHR ''A'' CHR ''Z'']) 16 (Some 16),
           Cls quotes]]),
    (''generic_secret'', [
      cat [Lit ''secret'', sep, Lit ''key'', assign, quoted 10],
      cat [Lit ''client'', sep, Lit ''secret'', assign, quoted 10],
      cat [Lit ''app'', sep, Lit ''secret'', assign, quoted 10]])]"

definition SAFE_VALUES :: "string list" where
  "SAFE_VALUES = [
    ''password'', ''secret'', ''key'', ''token'', ''your_password_here'', ''change_me'',
    ''example'', ''sample'', ''test'', ''demo'', ''placeholder'', ''dummy'', ''fake'',
    ''***'', ''...'', ''xxx'', ''yyy'', ''zzz'', ''your_api_key_here'', ''your_secret_here'',
    ''insert_your_key_here'', ''replace_with_your_key'', ''your_token_here'',
    ''12345'', ''123456'', ''qwerty'', ''admin'', ''root'', ''user'']"

definition SKIP_EXTENSIONS :: "string list" where
  "SKIP_EXTENSIONS = [''.png'', ''.jpg'', ''.jpeg'', ''.gif'', ''.ico'', ''.svg'', ''.pdf'',
     ''.zip'', ''.tar'', ''.gz'']"

definition SAFE_CONTEXT_PATTERNS :: "regex list" where
  "SAFE_CONTEXT_PATTERNS = [
    cat [Bol, rep_star ws, Lit ''#''],
    cat [Bol, rep_star ws, Lit ''//''],
    cat [Bol, rep_star ws, Lit ''/*''],
    cat [Bol, rep_star ws, Lit ''*''],
    cat [Bol, rep_star ws, Lit ''<!--''],
    cat [Lit ''test'', rep_star Dot],
    cat [rep_star Dot, Lit ''test'', rep_star Dot],
    cat [Lit ''example'', rep_star Dot],
    cat [rep_star Dot, Lit ''example'', rep_star Dot],
    cat [Lit ''sample'', rep_star Dot],
    cat [rep_star Dot, Lit ''sample'', rep_star Dot],
    cat [Lit ''mock'', rep_star Dot],
    cat [rep_star Dot, Lit ''mock'', rep_star Dot],
    cat [Lit ''placeholder'', rep_star Dot],
    cat [rep_star Dot, Lit ''placeholder'', rep_star Dot]]"

definition test_indicators :: "string list" where
  "test_indicators = [''test'', ''spec'', ''mock'', ''example'', ''sample'', ''demo'']"

definition is_safe_context :: "string \<Rightarrow> string \<Rightarrow> bool" where
  "is_safe_context line file_path =
     (if list_ex (\<lambda>test_indicator. contains (lower file_path) test_indicator) test_indicators
      then True
      else list_ex (\<lambda>pattern. re_match pattern (lower line) no_flags) SAFE_CONTEXT_PATTERNS)"

definition placeholder_indicators :: "string list" where
  "placeholder_indicators =
     [''your_'', ''insert_'', ''replace_'', ''change_'', ''enter_'', ''add_'', ''put_'']"

definition clean :: "string \<Rightarrow> string" where
  "clean v = lower (strip_chars (\<lambda>c. c = CHR 0x27 \<or> c = CHR 0x22) v)"

definition is_safe_value :: "string \<Rightarrow> bool" where
  "is_safe_value v =
     (let clean_value = clean v in
      if clean_value \<in> set SAFE_VALUES then True
      else if length clean_value < 4 then True
      else if length (remdups clean_value) = 1 then True
      else if list_ex (\<lambda>indicator. contains clean_value indicator) placeholder_indicators then True
      else False)"

definition extract_credential_value :: "string \<Rightarrow> string" where
  "extract_credential_value match_text =
     (case re_search (cat [Cls quotes, rep_plus (NCls quotes), Cls quotes]) match_text no_flags of
        Some quote_match \<Rightarrow> butlast (tl quote_match)
      | None \<Rightarrow>
         (case re_search (cat [Cls (chars '':=''), rep_star ws,
                               rep_plus (NCls [Space, Ch (CHR 0x27), Ch (CHR 0x22)])])
                         match_text no_flags of
            Some value_match \<Rightarrow> dropWhile isspace (tl value_match)
          | None \<Rightarrow> match_text))"

definition base64_pattern :: regex where
  "base64_pattern = cat [Bol,
      rep_star (Cls [Rng CHR ''A'' CHR ''Z'', Rng CHR ''a'' CHR ''z'', Rng CHR ''0'' CHR ''9'',
                     Ch CHR ''+'', Ch CHR ''/'']),
      Rep (Lit ''='') 0 (Some 2), Eol]"

definition is_base64_encoded :: "string \<Rightarrow> bool" where
  "is_base64_encoded text =
     (if length text mod 4 = 0 \<and> re_match base64_pattern text no_flags then
        (case b64decode text of
           None \<Rightarrow> False
         | Some decoded \<Rightarrow> if utf8_valid decoded then length text > 20 else False)
      else False)"

type_synonym issue = "nat \<times> string \<times> string \<times> string"

definition check_match :: "string \<Rightarrow> nat \<Rightarrow> string \<Rightarrow> string \<Rightarrow> string \<Rightarrow> issue list" where
  "check_match file_path line_num line cred_type match_text =
     (let credential_value = extract_credential_value match_text in
      if is_safe_value credential_value then []
      else if is_safe_context line file_path then
        (if length credential_value > 30 \<or> is_base64_encoded credential_value
         then [(line_num, strip line, cred_type, credential_value)]
         else [])
      else [(line_num, strip line, cred_type, credential_value)])"

definition scan_line :: "string \<Rightarrow> nat \<times> string \<Rightarrow> issue list" where
  "scan_line file_path = (\<lambda>(line_num, line).
     if strip line = [] then []
     else concat (map (\<lambda>(cred_type, patterns).
            concat (map (\<lambda>pattern.
              concat (map (check_match file_path line_num line cred_type)
                          (re_finditer pattern line IGNORECASE)))
              patterns))
          CREDENTIAL_PATTERNS))"

definition find_hardcoded_credentials :: "filesystem \<Rightarrow> string \<Rightarrow> issue list \<times> string list" where
  "find_hardcoded_credentials fs file_path =
     (if list_ex (\<lambda>ext. endswith file_path ext) SKIP_EXTENSIONS then ([], [])
      else case fs file_path of
        Inl e \<Rightarrow> ([], [''Error reading '' @ file_path @ '': '' @ str_of e])
      | Inr content \<Rightarrow>
          (concat (map (scan_line file_path) (enumerate 1 (split_on newline content))), []))"


record args =
  files :: "string list"







section \<open>detect-hardcoded-urls.py\<close>

definition url_char :: regex where
  "url_char = NCls [Space, Ch (CHR 0x27), Ch (CHR 0x22), Ch (CHR ''>''), Ch (CHR '']'')]"

definition URL_PATTERNS :: "regex list" where
  "URL_PATTERNS = [
     cat [Lit ''http'', rep_opt (Lit ''s''), Lit ''://'', rep_plus url_char],
     cat [Lit ''ftp://'', rep_plus url_char],
     cat [Alt (Lit ''jdbc'') (Alt (Lit ''mongodb'') (Alt (Lit ''mysql'') (Lit ''postgresql''))),
          Lit ''://'', rep_plus url_char],
     cat [Alt (Lit ''api.'') (Lit ''www.''),
          rep_plus (Cls [Rng CHR ''a'' CHR ''z'', Rng CHR ''A'' CHR ''Z'', Rng CHR ''0'' CHR ''9'',
                         Ch CHR ''.'', Ch CHR ''-'']),
          Lit ''.'', at_least 2 (Cls [Rng CHR ''a'' CHR ''z'', Rng CHR ''A'' CHR ''Z'']),
          rep_opt (cat [Lit ''/'', rep_star url_char])]]"

definition https :: regex where
  "https = cat [Lit ''http'', rep_opt (Lit ''s''), Lit ''://'']"

definition SAFE_URL_PATTERNS :: "regex list" where
  "SAFE_URL_PATTERNS = [
     cat [https, Lit ''localhost''],
     cat [https, Lit ''127.0.0.1''],
     cat [https, Lit ''0.0.0.0''],
     cat [https, Lit ''example.com''],
     cat [https, Lit ''example.org''],
     cat [https, Lit ''example.net''],
     cat [https, rep_star Dot, Lit ''.example.com''],
     cat [https, rep_star Dot, Lit ''.test''],
     cat [https, rep_star Dot, Lit ''.local''],
     cat [https, rep_star Dot, Lit ''.localhost''],
     cat [https, Lit ''github.com/'', rep_star Dot],
     cat [https, Lit ''docs.'', rep_star Dot],
     cat [https, Lit ''www.w3.org/'', rep_star Dot],
     cat [https, Lit ''tools.ietf.org/'', rep_star Dot],
     cat [https, Lit ''schemas.'', rep_star Dot],
     cat [https, Lit ''registry.npmjs.org/'', rep_star Dot],
     cat [https, Lit ''pypi.org/'', rep_star Dot],
     cat [https, Lit ''central.maven.org/'', rep_star Dot]]"

definition SKIP_EXTENSIONS_urls :: "string list" where
  "SKIP_EXTENSIONS_urls = [''.png'', ''.jpg'', ''.jpeg'', ''.gif'', ''.ico'', ''.svg'', ''.pdf'',
     ''.zip'', ''.tar'', ''.gz'']"

definition COMMENT_PATTERNS :: "regex list" where
  "COMMENT_PATTERNS = [
    cat [Bol, rep_star ws, Lit ''#''],
    cat [Bol, rep_star ws, Lit ''//''],
    cat [Bol, rep_star ws, Lit ''/*''],
    cat [Bol, rep_star ws, Lit ''*''],
    cat [Bol, rep_star ws, Lit ''<!--'']]"

definition is_in_comment :: "string \<Rightarrow> bool" where
  "is_in_comment line = list_ex (\<lambda>pattern. re_match pattern line no_flags) COMMENT_PATTERNS"

definition is_safe_url :: "string \<Rightarrow> bool" where
  "is_safe_url url = list_ex (\<lambda>pattern. re_match pattern url IGNORECASE) SAFE_URL_PATTERNS"

definition url_keywords :: "string list" where
  "url_keywords = [''api'', ''prod'', ''staging'', ''internal'', ''admin'']"

type_synonym url_issue = "nat \<times> string \<times> string"

definition check_url :: "nat \<Rightarrow> string \<Rightarrow> string \<Rightarrow> url_issue list" where
  "check_url line_num line url =
     (if is_safe_url url then []
      else if is_in_comment line then
        (if list_ex (\<lambda>keyword. contains (lower url) keyword) url_keywords
         then [(line_num, strip line, url)]
         else [])
      else [(line_num, strip line, url)])"

definition scan_url_line :: "nat \<times> string \<Rightarrow> url_issue list" where
  "scan_url_line = (\<lambda>(line_num, line).
     if strip line = [] then []
     else concat (map (\<lambda>pattern.
            concat (map (check_url line_num line) (re_finditer pattern line IGNORECASE)))
          URL_PATTERNS))"

definition find_hardcoded_urls :: "filesystem \<Rightarrow> string \<Rightarrow> url_issue list \<times> string list" where
  "find_hardcoded_urls fs file_path =
     (if list_ex (\<lambda>ext. endswith file_path ext) SKIP_EXTENSIONS_urls then ([], [])
      else case fs file_path of
        Inl e \<Rightarrow> ([], [''Error reading '' @ file_path @ '': '' @ str_of e])
      | Inr content \<Rightarrow> (concat (map scan_url_line (enumerate 1 (readlines content))), []))"








section \<open>Paths\<close>






section \<open>check-license.py\<close>

definition LICENSE_PATTERNS :: "(string \<times> regex list) list" where
  "LICENSE_PATTERNS = [
     (''apache'', [
        Lit ''Licensed under the Apache License'',
        cat [Lit ''Apache License'', rep_star Dot, Lit ''Version 2.0'']]),
     (''mit'', [
        Lit ''MIT License'',
        Lit ''Permission is hereby granted, free of charge'']),
     (''gpl'', [
        Lit ''GNU General Public License'',
        Lit ''This program is free software'']),
     (''bsd'', [
        Lit ''BSD License'',
        Lit ''Redistribution and use in source and binary forms'']),
     (''copyright'', [
        cat [Lit ''Copyright'', rep_star Dot, Rep (Cls [Digit]) 4 (Some 4)],
        cat [Lit ''(c)'', rep_star Dot, Rep (Cls [Digit]) 4 (Some 4)],
        cat [Lit [CHR 0xA9], rep_star Dot, Rep (Cls [Digit]) 4 (Some 4)]])]"





definition read_file_head :: "filesystem \<Rightarrow> string \<Rightarrow> nat \<Rightarrow> string" where
  "read_file_head fs file_path lines =
     (case fs file_path of
        Inl e \<Rightarrow> []
      | Inr content \<Rightarrow> concat (take lines (readlines content)))"

definition has_license_header :: "filesystem \<Rightarrow> string \<Rightarrow> bool \<times> string list" where
  "has_license_header fs file_path =
     (let head_content = read_file_head fs file_path 20;
          found_licenses =
            map fst (filter (\<lambda>(license_type, patterns).
                        list_ex (\<lambda>pattern. re_search pattern head_content IGNORECASE_MULTILINE \<noteq> None)
                                patterns)
                      LICENSE_PATTERNS)
      in (length found_licenses > 0, found_licenses))"

record license_args = args +
  require_license :: bool
  license_type :: "string option"







section \<open>check\_xml.py\<close>

text \<open>
  The XML parser is a parameter: it gives the exception it raises on a text, or \<^verbatim>\<open>None\<close>
  when the text parses. \<^verbatim>\<open>ET.parse\<close> opens the file and parses its text. Where a function
  of the script can let an exception pass, the model returns it on the left.
\<close>

type_synonym xml_parser = "string \<Rightarrow> py_exception option"

definition ET_parse :: "filesystem \<Rightarrow> xml_parser \<Rightarrow> string \<Rightarrow> py_exception + unit" where
  "ET_parse fs parser file_path =
     (case fs file_path of
        Inl e \<Rightarrow> Inl e
      | Inr content \<Rightarrow> (case parser content of Some e \<Rightarrow> Inl e | None \<Rightarrow> Inr ()))"

definition validate_xml_file ::
    "filesystem \<Rightarrow> xml_parser \<Rightarrow> string \<Rightarrow> py_exception + (bool \<times> string option)" where
  "validate_xml_file fs parser file_path =
     (case ET_parse fs parser file_path of
        Inr u \<Rightarrow> Inr (True, None)
      | Inl (ParseError m) \<Rightarrow> Inr (False, Some (''XML Parse Error: '' @ m))
      | Inl (ExpatError m) \<Rightarrow> Inr (False, Some (''XML Syntax Error: '' @ m))
      | Inl e \<Rightarrow> Inr (False, Some (''Unexpected error: '' @ str_of e)))"

datatype xml_out =
    XmlValid string
  | XmlInvalid string "string option"
  | XmlNotFound string

fun xml_loop ::
    "filesystem \<Rightarrow> xml_parser \<Rightarrow> string list \<Rightarrow> int \<times> xml_out list \<Rightarrow> py_exception + (int \<times> xml_out list)" where
  "xml_loop fs parser [] st = Inr st"
| "xml_loop fs parser (file_path # rest) (exit_code, out) =
     (case validate_xml_file fs parser file_path of
        Inr (is_valid, error_msg) \<Rightarrow>
          if is_valid then xml_loop fs parser rest (exit_code, out @ [XmlValid file_path])
          else xml_loop fs parser rest (1, out @ [XmlInvalid file_path error_msg])
      | Inl (FileNotFoundError m) \<Rightarrow> xml_loop fs parser rest (1, out @ [XmlNotFound file_path])
      | Inl e \<Rightarrow> Inl e)"

definition xml_main :: "filesystem \<Rightarrow> xml_parser \<Rightarrow> args \<Rightarrow> py_exception + (int \<times> xml_out list)" where
  "xml_main fs parser a = xml_loop fs parser (files a) (0, [])"


section \<open>The table-driven scanners\<close>

text \<open>
  \<^verbatim>\<open>detect-verbose-flags.py\<close>, \<^verbatim>\<open>dotnet-security-scan.py\<close> and \<^verbatim>\<open>ansible-security-scan.py\<close>
  each hold a dictionary from a pattern name to its patterns, description and severity.
  The dictionary is a parameter of the functions below, so that what is proved of them
  holds for every table, the script's own included.
\<close>

record pattern_info =
  patterns :: "regex list"
  description :: string
  severity :: string















subsection \<open>detect-verbose-flags.py\<close>












subsection \<open>dotnet-security-scan.py\<close>








subsection \<open>ansible-security-scan.py\<close>










section \<open>Vocabulary of the properties\<close>

text \<open>The number of lines of a file, as iterating over the open file counts them.\<close>

definition line_count :: "filesystem \<Rightarrow> string \<Rightarrow> nat" where
  "line_count fs p = (case fs p of Inl e \<Rightarrow> 0 | Inr content \<Rightarrow> length (readlines content))"

text \<open>
  The safe context with the path taken as it is written, not in lower case; the script
  itself tests the lower-case path (\<^verbatim>\<open>is_safe_context\<close>).
\<close>

definition safe_context_of_exact_path :: "string \<Rightarrow> string \<Rightarrow> bool" where
  "safe_context_of_exact_path line file_path =
     (list_ex (\<lambda>test_indicator. contains file_path test_indicator) test_indicators
      \<or> list_ex (\<lambda>pattern. re_match pattern (lower line) no_flags) SAFE_CONTEXT_PATTERNS)"

text \<open>
  A small file system for the examples. \<^verbatim>\<open>app.py\<close> and \<^verbatim>\<open>Test.py\<close> assign the same
  password; \<^verbatim>\<open>app.py\<close> also assigns a placeholder. Every other path is missing.
\<close>

definition secret_line :: string where
  \<open>secret_line = ''password = "hunter2abc"''\<close>

definition placeholder_line :: string where
  \<open>placeholder_line = ''password = "admin"''\<close>

definition url_line :: string where
  \<open>url_line = ''fetch("http://evil.corp/api")''\<close>

definition sample_fs :: filesystem where
  "sample_fs p =
     (if p = ''app.py'' then Inr (secret_line @ [newline] @ placeholder_line @ [newline])
      else if p = ''Test.py'' then Inr secret_line
      else if p = ''site.py'' then Inr (url_line @ [newline])
      else Inl (FileNotFoundError (''[Errno 2] No such file or directory: '' @ p)))"






definition xml_invalid :: "filesystem \<Rightarrow> xml_parser \<Rightarrow> string \<Rightarrow> bool" where
  "xml_invalid fs parser file_path =
     (case validate_xml_file fs parser file_path of
        Inr (is_valid, error_msg) \<Rightarrow> \<not> is_valid
      | Inl e \<Rightarrow> True)"


definition xml_line :: "filesystem \<Rightarrow> xml_parser \<Rightarrow> string \<Rightarrow> xml_out" where
  "xml_line fs parser file_path =
     (case validate_xml_file fs parser file_path of
        Inr (is_valid, error_msg) \<Rightarrow>
          if is_valid then XmlValid file_path else XmlInvalid file_path error_msg
      | Inl e \<Rightarrow> XmlNotFound file_path)"

text \<open>Three texts for the licence examples: the notice on line 20, on line 21, and another line 21.\<close>

definition notice_on_line_20 :: string where
  "notice_on_line_20 = replicate 19 newline @ ''# MIT License'' @ [newline]"

definition notice_on_line_21 :: string where
  "notice_on_line_21 = replicate 20 newline @ ''# MIT License'' @ [newline]"

definition code_on_line_21 :: string where
  "code_on_line_21 = replicate 20 newline @ ''x = 1'' @ [newline]"

definition license_fs :: filesystem where
  "license_fs p =
     (if p = ''a.py'' then Inr notice_on_line_20
      else if p = ''b.py'' then Inr notice_on_line_21
      else if p = ''c.py'' then Inr code_on_line_21
      else Inl (FileNotFoundError (''[Errno 2] No such file or directory: '' @ p)))"












text \<open>The literal character a pattern starts with, when it starts with one.\<close>

fun head_char :: "regex \<Rightarrow> char option" where
  "head_char (Seq (Lit (c # cs)) r) = Some c"
| "head_char r = None"

definition starts_with_visible_literal :: "regex \<Rightarrow> bool" where
  "starts_with_visible_literal r =
     (case head_char r of Some c \<Rightarrow> \<not> isspace (lower_char c) | None \<Rightarrow> False)"

section \<open>Lemmas about text and enumeration\<close>

lemma startswith_iff: "startswith s p \<longleftrightarrow> (\<exists>t. s = p @ t)"
  by (induction s p rule: startswith.induct) auto

lemma contains_iff: "contains s sub \<longleftrightarrow> (\<exists>pre post. s = pre @ sub @ post)"
proof (induction s)
  case Nil
  then show ?case by auto
next
  case (Cons c cs)
  show ?case
  proof
    assume "contains (c # cs) sub"
    then consider "startswith (c # cs) sub" | "contains cs sub" by auto
    then show "\<exists>pre post. c # cs = pre @ sub @ post"
    proof cases
      case 1
      then obtain t where "c # cs = sub @ t" by (auto simp: startswith_iff)
      then have "c # cs = [] @ sub @ t" by simp
      then show ?thesis by blast
    next
      case 2
      then obtain pre post where "cs = pre @ sub @ post" using Cons.IH by blast
      then have "c # cs = (c # pre) @ sub @ post" by simp
      then show ?thesis by blast
    qed
  next
    assume "\<exists>pre post. c # cs = pre @ sub @ post"
    then obtain pre post where eq: "c # cs = pre @ sub @ post" by blast
    show "contains (c # cs) sub"
    proof (cases pre)
      case Nil
      with eq have "startswith (c # cs) sub" by (auto simp: startswith_iff)
      then show ?thesis by simp
    next
      case (Cons a pre')
      with eq have "cs = pre' @ sub @ post" by simp
      then have "contains cs sub" using Cons.IH by blast
      then show ?thesis by simp
    qed
  qed
qed

lemma in_concat_enumerate:
  "i \<in> set (concat (map g (enumerate k xs))) \<longleftrightarrow>
     (\<exists>j < length xs. i \<in> set (g (k + j, xs ! j)))"
proof (induction xs arbitrary: k)
  case Nil
  then show ?case by simp
next
  case (Cons x xs)
  show ?case
  proof
    assume "i \<in> set (concat (map g (enumerate k (x # xs))))"
    then consider "i \<in> set (g (k, x))" | "i \<in> set (concat (map g (enumerate (Suc k) xs)))"
      by auto
    then show "\<exists>j < length (x # xs). i \<in> set (g (k + j, (x # xs) ! j))"
    proof cases
      case 1
      then have "i \<in> set (g (k + 0, (x # xs) ! 0))" by simp
      then show ?thesis by blast
    next
      case 2
      then obtain j where "j < length xs" "i \<in> set (g (Suc k + j, xs ! j))"
        using Cons.IH by blast
      then have "Suc j < length (x # xs)" "i \<in> set (g (k + Suc j, (x # xs) ! Suc j))" by simp_all
      then show ?thesis by blast
    qed
  next
    assume "\<exists>j < length (x # xs). i \<in> set (g (k + j, (x # xs) ! j))"
    then obtain j where j: "j < length (x # xs)" "i \<in> set (g (k + j, (x # xs) ! j))" by blast
    show "i \<in> set (concat (map g (enumerate k (x # xs))))"
    proof (cases j)
      case 0
      with j show ?thesis by simp
    next
      case (Suc j')
      with j have "j' < length xs" "i \<in> set (g (Suc k + j', xs ! j'))" by simp_all
      then have "i \<in> set (concat (map g (enumerate (Suc k) xs)))" using Cons.IH by blast
      then show ?thesis by simp
    qed
  qed
qed

lemma sorted_concat_enumerate:
  assumes "\<And>n x i. i \<in> set (g (n, x)) \<Longrightarrow> fst i = n"
  shows "sorted (map fst (concat (map g (enumerate k xs))))"
proof (induction xs arbitrary: k)
  case Nil
  then show ?case by simp
next
  case (Cons x xs)
  have here: "\<forall>i \<in> set (g (k, x)). fst i = k" using assms by blast
  have later: "\<forall>i \<in> set (concat (map g (enumerate (Suc k) xs))). Suc k \<le> fst i"
  proof
    fix i assume "i \<in> set (concat (map g (enumerate (Suc k) xs)))"
    then obtain j where "i \<in> set (g (Suc k + j, xs ! j))"
      unfolding in_concat_enumerate by blast
    then have "fst i = Suc k + j" using assms by blast
    then show "Suc k \<le> fst i" by simp
  qed
  have "sorted (map fst (g (k, x)))"
    using here by (simp add: sorted_wrt_iff_nth_less sorted_iff_nth_mono)
  moreover have "sorted (map fst (concat (map g (enumerate (Suc k) xs))))" by (rule Cons.IH)
  moreover have "\<forall>a \<in> set (g (k, x)). \<forall>b \<in> set (concat (map g (enumerate (Suc k) xs))). fst a \<le> fst b"
    using here later by fastforce
  ultimately show ?case by (simp add: sorted_append)
qed

lemma check_match_fst: "i \<in> set (check_match p n l t m) \<Longrightarrow> fst i = n"
  by (auto simp: check_match_def Let_def split: if_splits)

lemma scan_line_fst: "i \<in> set (scan_line p (n, l)) \<Longrightarrow> fst i = n"
  by (auto simp: scan_line_def dest: check_match_fst split: if_splits)

lemma scan_line_blank: "strip l = [] \<Longrightarrow> scan_line p (n, l) = []"
  by (simp add: scan_line_def)

lemma check_url_fst: "i \<in> set (check_url n l u) \<Longrightarrow> fst i = n"
  by (auto simp: check_url_def split: if_splits)

lemma scan_url_line_fst: "i \<in> set (scan_url_line (n, l)) \<Longrightarrow> fst i = n"
  by (auto simp: scan_url_line_def dest: check_url_fst split: if_splits)

lemma strip_Nil: "strip [] = []"
  by (simp add: strip_def strip_chars_def)

lemma length_split_on: "length (split_on d s) = Suc (length (filter (\<lambda>c. c = d) s))"
  by (induction s) (auto split: list.splits)

lemma split_on_not_Nil: "split_on d s \<noteq> []"
  by (induction s) (auto split: list.splits)

lemma readlines_Nil_iff: "readlines s = [] \<longleftrightarrow> s = []"
  by (cases s) (auto split: list.splits)

lemma split_line_in_readlines:
  "j < length (split_on newline s) \<Longrightarrow> split_on newline s ! j \<noteq> [] \<Longrightarrow> j < length (readlines s)"
proof (induction s arbitrary: j)
  case Nil
  then show ?case by simp
next
  case (Cons c cs)
  obtain w ws where sp: "split_on newline cs = w # ws"
    using split_on_not_Nil [of newline cs] by (cases "split_on newline cs") auto
  show ?case
  proof (cases "c = newline")
    case True
    with Cons.prems sp obtain j' where j: "j = Suc j'"
      by (cases j) auto
    with Cons.prems sp True have "j' < length (split_on newline cs)" "split_on newline cs ! j' \<noteq> []"
      by auto
    then have "j' < length (readlines cs)" by (rule Cons.IH)
    with True j show ?thesis by simp
  next
    case False
    show ?thesis
    proof (cases j)
      case 0
      with False show ?thesis by (auto split: list.splits)
    next
      case (Suc j')
      with Cons.prems sp False have "j < length (split_on newline cs)" "split_on newline cs ! j \<noteq> []"
        by auto
      then have "j < length (readlines cs)" by (rule Cons.IH)
      with False show ?thesis by (auto split: list.splits)
    qed
  qed
qed

section \<open>The shape of a run\<close>


























lemma validate_xml_file_total:
  "\<exists>is_valid error_msg. validate_xml_file fs parser p = Inr (is_valid, error_msg)"
proof (cases "ET_parse fs parser p")
  case (Inl e)
  then show ?thesis by (cases e) (auto simp: validate_xml_file_def)
next
  case (Inr u)
  then show ?thesis by (auto simp: validate_xml_file_def)
qed

lemma xml_loop_eq:
  "xml_loop fs parser xs (c, out) =
     Inr (if list_ex (xml_invalid fs parser) xs then 1 else c, out @ map (xml_line fs parser) xs)"
proof (induction xs arbitrary: c out)
  case Nil
  then show ?case by simp
next
  case (Cons x xs)
  obtain b m where v: "validate_xml_file fs parser x = Inr (b, m)"
    using validate_xml_file_total by blast
  then show ?case
    by (simp add: Cons.IH xml_invalid_def xml_line_def)
qed

lemma xml_line_never_not_found: "xml_line fs parser p \<noteq> XmlNotFound q"
proof -
  obtain b m where "validate_xml_file fs parser p = Inr (b, m)"
    using validate_xml_file_total by blast
  then show ?thesis by (simp add: xml_line_def)
qed

lemma missing_file_validate:
  "fs p = Inl (FileNotFoundError m) \<Longrightarrow>
     validate_xml_file fs parser p = Inr (False, Some (''Unexpected error: '' @ m))"
  by (simp add: validate_xml_file_def ET_parse_def)

lemma filter_nonempty_iff: "filter P xs \<noteq> [] \<longleftrightarrow> list_ex P xs"
  by (induction xs) auto

lemma has_license_header_iff:
  "fst (has_license_header fs p) \<longleftrightarrow>
     list_ex (\<lambda>(license_type, patterns).
        list_ex (\<lambda>pattern. re_search pattern (read_file_head fs p 20) IGNORECASE_MULTILINE \<noteq> None) patterns)
       LICENSE_PATTERNS"
  by (simp add: has_license_header_def Let_def filter_nonempty_iff)

section \<open>Findings of the credential and URL scanners\<close>

lemma cred_issues_iff:
  "i \<in> set (fst (find_hardcoded_credentials fs p)) \<longleftrightarrow>
     \<not> list_ex (\<lambda>ext. endswith p ext) SKIP_EXTENSIONS
     \<and> (\<exists>content. fs p = Inr content
         \<and> (\<exists>j < length (split_on newline content).
               strip (split_on newline content ! j) \<noteq> []
               \<and> (\<exists>ct ps pat m. (ct, ps) \<in> set CREDENTIAL_PATTERNS \<and> pat \<in> set ps
                     \<and> m \<in> set (re_finditer pat (split_on newline content ! j) IGNORECASE)
                     \<and> i \<in> set (check_match p (1 + j) (split_on newline content ! j) ct m))))"
proof (cases "list_ex (\<lambda>ext. endswith p ext) SKIP_EXTENSIONS")
  case True
  then show ?thesis by (simp add: find_hardcoded_credentials_def)
next
  case False
  show ?thesis
  proof (cases "fs p")
    case (Inl e)
    with False show ?thesis by (simp add: find_hardcoded_credentials_def)
  next
    case (Inr content)
    have "i \<in> set (scan_line p (n, l)) \<longleftrightarrow>
            strip l \<noteq> [] \<and> (\<exists>ct ps pat m. (ct, ps) \<in> set CREDENTIAL_PATTERNS \<and> pat \<in> set ps
               \<and> m \<in> set (re_finditer pat l IGNORECASE) \<and> i \<in> set (check_match p n l ct m))" for n l
      unfolding scan_line_def by (simp split: prod.splits) fastforce
    then have "(\<exists>j < length (split_on newline content).
              i \<in> set (scan_line p (1 + j, split_on newline content ! j))) \<longleftrightarrow>
          (\<exists>j < length (split_on newline content).
               strip (split_on newline content ! j) \<noteq> []
               \<and> (\<exists>ct ps pat m. (ct, ps) \<in> set CREDENTIAL_PATTERNS \<and> pat \<in> set ps
                     \<and> m \<in> set (re_finditer pat (split_on newline content ! j) IGNORECASE)
                     \<and> i \<in> set (check_match p (1 + j) (split_on newline content ! j) ct m)))"
      by simp
    moreover have "i \<in> set (fst (find_hardcoded_credentials fs p)) \<longleftrightarrow>
        i \<in> set (concat (map (scan_line p) (enumerate 1 (split_on newline content))))"
      using False Inr by (simp add: find_hardcoded_credentials_def)
    ultimately show ?thesis
      using False Inr unfolding in_concat_enumerate by simp
  qed
qed

lemma is_safe_value_iff:
  "is_safe_value v \<longleftrightarrow>
     clean v \<in> set SAFE_VALUES \<or> length (clean v) < 4 \<or> card (set (clean v)) = 1
     \<or> list_ex (\<lambda>indicator. contains (clean v) indicator) placeholder_indicators"
  by (auto simp: is_safe_value_def Let_def length_remdups_card_conv)

lemma check_match_cases:
  "check_match p n l ct m =
     (let v = extract_credential_value m in
      if is_safe_value v then []
      else if is_safe_context l p \<and> \<not> (length v > 30 \<or> is_base64_encoded v) then []
      else [(n, strip l, ct, v)])"
  by (simp add: check_match_def Let_def)

lemma cred_line_numbers:
  assumes "i \<in> set (fst (find_hardcoded_credentials fs p))"
  shows "1 \<le> fst i \<and> fst i \<le> line_count fs p"
proof (cases "list_ex (\<lambda>ext. endswith p ext) SKIP_EXTENSIONS")
  case True
  with assms show ?thesis by (simp add: find_hardcoded_credentials_def)
next
  case False
  show ?thesis
  proof (cases "fs p")
    case (Inl e)
    with assms False show ?thesis by (simp add: find_hardcoded_credentials_def)
  next
    case (Inr content)
    with assms False
    have "i \<in> set (concat (map (scan_line p) (enumerate 1 (split_on newline content))))"
      by (simp add: find_hardcoded_credentials_def)
    then obtain j where j: "j < length (split_on newline content)"
        and i: "i \<in> set (scan_line p (1 + j, split_on newline content ! j))"
      unfolding in_concat_enumerate by blast
    from i have n: "fst i = 1 + j" by (rule scan_line_fst)
    from i have "strip (split_on newline content ! j) \<noteq> []"
      using scan_line_blank by fastforce
    then have "split_on newline content ! j \<noteq> []" using strip_Nil by auto
    with j have "j < length (readlines content)" by (rule split_line_in_readlines)
    with n Inr show ?thesis by (simp add: line_count_def)
  qed
qed

lemma url_line_numbers:
  assumes "i \<in> set (fst (find_hardcoded_urls fs p))"
  shows "1 \<le> fst i \<and> fst i \<le> line_count fs p"
proof (cases "list_ex (\<lambda>ext. endswith p ext) SKIP_EXTENSIONS_urls")
  case True
  with assms show ?thesis by (simp add: find_hardcoded_urls_def)
next
  case False
  show ?thesis
  proof (cases "fs p")
    case (Inl e)
    with assms False show ?thesis by (simp add: find_hardcoded_urls_def)
  next
    case (Inr content)
    with assms False
    have "i \<in> set (concat (map scan_url_line (enumerate 1 (readlines content))))"
      by (simp add: find_hardcoded_urls_def)
    then obtain j where j: "j < length (readlines content)"
        and i: "i \<in> set (scan_url_line (1 + j, readlines content ! j))"
      unfolding in_concat_enumerate by blast
    from i have n: "fst i = 1 + j" by (rule scan_url_line_fst)
    with j Inr show ?thesis by (simp add: line_count_def)
  qed
qed

lemma cred_sorted: "sorted (map fst (fst (find_hardcoded_credentials fs p)))"
  by (auto simp: find_hardcoded_credentials_def split: sum.splits
           intro!: sorted_concat_enumerate dest: scan_line_fst)

lemma url_sorted: "sorted (map fst (fst (find_hardcoded_urls fs p)))"
  by (auto simp: find_hardcoded_urls_def split: sum.splits
           intro!: sorted_concat_enumerate dest: scan_url_line_fst)





lemma isspace_lower_char: "isspace x \<Longrightarrow> lower_char x = x"
  by (auto simp: isspace_def lower_char_def Let_def)

lemma strip_chars_Nil_iff: "strip_chars P s = [] \<longleftrightarrow> (\<forall>c \<in> set s. P c)"
proof -
  have "(\<forall>x \<in> set (dropWhile P s). P x) \<longleftrightarrow> dropWhile P s = []"
  proof
    assume a: "\<forall>x \<in> set (dropWhile P s). P x"
    show "dropWhile P s = []"
    proof (rule ccontr)
      assume ne: "dropWhile P s \<noteq> []"
      then have "\<not> P (hd (dropWhile P s))" by (rule hd_dropWhile)
      moreover have "hd (dropWhile P s) \<in> set (dropWhile P s)" using ne by simp
      ultimately show False using a by blast
    qed
  next
    assume "dropWhile P s = []"
    then show "\<forall>x \<in> set (dropWhile P s). P x" by (auto dest: set_dropWhileD)
  qed
  moreover have "strip_chars P s = [] \<longleftrightarrow> (\<forall>x \<in> set (dropWhile P s). P x)"
    by (simp add: strip_chars_def dropWhile_eq_Nil_conv)
  ultimately show ?thesis by (simp add: dropWhile_eq_Nil_conv)
qed

lemma finditer_from_match:
  "m \<in> set (finditer_from f subj r s) \<Longrightarrow> \<exists>pre t. s = pre @ t \<and> first_match f subj r t = Some m"
proof (induction f subj r s rule: finditer_from.induct)
  case (1 f subj r s)
  show ?case
  proof (cases "first_match f subj r s")
    case None
    show ?thesis
    proof (cases s)
      case Nil
      with None "1.prems" show ?thesis by (simp add: finditer_from.simps [of f subj r "[]"])
    next
      case (Cons x xs)
      with None "1.prems" have "m \<in> set (finditer_from f subj r xs)"
        by (simp add: finditer_from.simps [of f subj r "x # xs"])
      then obtain pre t where "xs = pre @ t" "first_match f subj r t = Some m"
        using "1.IH"(1) [OF None Cons] by blast
      then have "s = (x # pre) @ t" using Cons by simp
      then show ?thesis using \<open>first_match f subj r t = Some m\<close> by blast
    qed
  next
    case (Some m')
    show ?thesis
    proof (cases s)
      case Nil
      with Some "1.prems" have "m = m'" by (simp add: finditer_from.simps [of f subj r "[]"])
      with Some Nil have "s = [] @ s" "first_match f subj r s = Some m" by simp_all
      then show ?thesis by blast
    next
      case (Cons x xs)
      let ?rest = "if m' = [] then xs else drop (length m') (x # xs)"
      from Some Cons "1.prems" consider "m = m'" | "m \<in> set (finditer_from f subj r ?rest)"
        by (auto simp: finditer_from.simps [of f subj r "x # xs"])
      then show ?thesis
      proof cases
        case 1
        with Some have "s = [] @ s" "first_match f subj r s = Some m" by simp_all
        then show ?thesis by blast
      next
        case 2
        then obtain pre t where rest: "?rest = pre @ t" and fm: "first_match f subj r t = Some m"
          using "1.IH"(2) [OF Some Cons] by blast
        have "\<exists>u. s = u @ ?rest"
        proof (cases "m' = []")
          case True
          then have "s = [x] @ ?rest" using Cons by simp
          then show ?thesis by blast
        next
          case False
          then have "s = take (length m') (x # xs) @ ?rest" using Cons by simp
          then show ?thesis by blast
        qed
        then obtain u where "s = u @ ?rest" by blast
        with rest have "s = (u @ pre) @ t" by simp
        with fm show ?thesis by blast
      qed
    qed
  qed
qed

lemma first_match_head:
  assumes "first_match f subj r t = Some m" and "head_char r = Some c"
  shows "\<exists>x xs. t = x # xs \<and> char_eq (ignorecase f) c x"
proof -
  from assms(2) obtain cs r' where r: "r = Seq (Lit (c # cs)) r'"
    by (induction r rule: head_char.induct) auto
  from assms(1) have "rmatch f subj r t \<noteq> []"
    by (auto simp: first_match_def split: list.splits)
  with r have "lit_match (ignorecase f) (c # cs) t \<noteq> None"
    by (cases "lit_match (ignorecase f) (c # cs) t") auto
  then show ?thesis
    by (cases t) (auto split: if_splits)
qed

lemma visible_match_line:
  assumes "m \<in> set (re_finditer r line IGNORECASE)" and "starts_with_visible_literal r"
  shows "strip line \<noteq> []"
proof -
  from assms(2) obtain c where c: "head_char r = Some c" "\<not> isspace (lower_char c)"
    by (auto simp: starts_with_visible_literal_def split: option.splits)
  from assms(1) obtain pre t where line: "line = pre @ t" and fm: "first_match IGNORECASE line r t = Some m"
    using finditer_from_match unfolding re_finditer_def by blast
  from first_match_head [OF fm c(1)] obtain x xs where t: "t = x # xs" and eq: "char_eq True c x"
    by (auto simp: IGNORECASE_def)
  from eq have "lower_char x = lower_char c" by (simp add: char_eq_def)
  with c(2) have "\<not> isspace x" using isspace_lower_char [of x] by auto
  moreover have "x \<in> set line" using line t by simp
  ultimately show ?thesis by (auto simp: strip_def strip_chars_Nil_iff)
qed

lemma credential_patterns_visible:
  "list_all (\<lambda>(cred_type, pats). list_all starts_with_visible_literal pats) CREDENTIAL_PATTERNS"
  by code_simp

lemma credential_match_not_blank:
  assumes "(cred_type, pats) \<in> set CREDENTIAL_PATTERNS" and "pattern \<in> set pats"
    and "m \<in> set (re_finditer pattern line IGNORECASE)"
  shows "strip line \<noteq> []"
proof -
  from assms(1,2) have "starts_with_visible_literal pattern"
    using credential_patterns_visible by (auto simp: list_all_iff)
  with assms(3) show ?thesis by (rule visible_match_line)
qed

section \<open>The examples, evaluated\<close>

lemma sample_app_credentials:
  "find_hardcoded_credentials sample_fs ''app.py'' = ([(1, secret_line, ''password'', ''hunter2abc'')], [])"
  by code_simp

lemma sample_Test_credentials:
  "find_hardcoded_credentials sample_fs ''Test.py'' = ([], [])"
  by code_simp

lemma secret_line_match:
  "re_finditer (hd (snd (hd CREDENTIAL_PATTERNS))) secret_line IGNORECASE = [secret_line]"
  by code_simp

lemma placeholder_line_match:
  "re_finditer (hd (snd (hd CREDENTIAL_PATTERNS))) placeholder_line IGNORECASE = [placeholder_line]"
  by code_simp

lemma secret_line_value: "extract_credential_value secret_line = ''hunter2abc''"
  by code_simp

lemma placeholder_line_value: "extract_credential_value placeholder_line = ''admin''"
  by code_simp

lemma secret_not_safe: "\<not> is_safe_value ''hunter2abc''"
  by code_simp

lemma secret_short: "\<not> (length ''hunter2abc'' > 30 \<or> is_base64_encoded ''hunter2abc'')"
  by code_simp

lemma secret_line_strip: "strip secret_line = secret_line"
  by code_simp

lemma app_lines: "split_on newline (secret_line @ [newline] @ placeholder_line @ [newline])
    = [secret_line, placeholder_line, []]"
  by code_simp

lemma Test_lines: "split_on newline secret_line = [secret_line]"
  by code_simp

lemma app_context:
  "\<not> (list_ex (\<lambda>test_indicator. contains (lower ''app.py'') test_indicator) test_indicators
      \<or> list_ex (\<lambda>pattern. re_match pattern (lower secret_line) no_flags) SAFE_CONTEXT_PATTERNS)"
  by code_simp

lemma Test_context:
  "list_ex (\<lambda>test_indicator. contains (lower ''Test.py'') test_indicator) test_indicators"
  by code_simp

lemma Test_exact_context: "\<not> safe_context_of_exact_path secret_line ''Test.py''"
  by code_simp

lemma first_pattern:
  "(''password'', snd (hd CREDENTIAL_PATTERNS)) \<in> set CREDENTIAL_PATTERNS
   \<and> hd (snd (hd CREDENTIAL_PATTERNS)) \<in> set (snd (hd CREDENTIAL_PATTERNS))"
  by (simp add: CREDENTIAL_PATTERNS_def)

lemma sample_not_skipped:
  "\<not> list_ex (\<lambda>ext. endswith ''app.py'' ext) SKIP_EXTENSIONS
   \<and> \<not> list_ex (\<lambda>ext. endswith ''Test.py'' ext) SKIP_EXTENSIONS"
  by code_simp

lemma sample_b64: \<open>b64decode ''QUJDREVGR0hJSktMTU5PUFFSU1RVVg=='' = Some [65,66,67,68,69,70,71,72,73,74,75,76,77,78,79,80,81,82,83,84,85,86]\<close>
  by code_simp

lemma sample_b64_match: \<open>re_match base64_pattern ''QUJDREVGR0hJSktMTU5PUFFSU1RVVg=='' no_flags\<close>
  by code_simp

lemma sample_heads:
  "take 20 (readlines notice_on_line_21) = take 20 (readlines code_on_line_21)"
  by code_simp

lemma sample_a_license: "has_license_header license_fs ''a.py'' = (True, [''mit''])"
  by code_simp

lemma sample_c_license: "has_license_header license_fs ''c.py'' = (False, [])"
  by code_simp

lemma sample_site_urls:
  "find_hardcoded_urls sample_fs ''site.py'' = ([(1, url_line, ''http://evil.corp/api'')], [])"
  by code_simp

lemma sample_line_counts:
  "line_count sample_fs ''app.py'' = 2 \<and> line_count sample_fs ''site.py'' = 1"
  by code_simp





section \<open>Exit codes and printed findings\<close>




















section \<open>The claims\<close>

text \<open>
  Claim C4. \<^verbatim>\<open>is_base64_encoded(text)\<close> returns True exactly when the text is longer than 20
  characters, its length is a multiple of 4, it matches \<^verbatim>\<open>^[A-Za-z0-9+/]*={0,2}$\<close>, and its
  base64 decoding succeeds and is valid UTF-8; in every other case it returns False.
\<close>

theorem is_base64_encoded_iff:
  "is_base64_encoded text \<longleftrightarrow>
     length text > 20 \<and> length text mod 4 = 0 \<and> re_match base64_pattern text no_flags
     \<and> (\<exists>decoded. b64decode text = Some decoded \<and> utf8_valid decoded)"
  by (auto simp: is_base64_encoded_def split: option.splits)

text \<open>The witness: a base64 text of 32 characters that decodes to the letters A to V.\<close>

theorem is_base64_encoded_witness:
  \<open>is_base64_encoded ''QUJDREVGR0hJSktMTU5PUFFSU1RVVg==''\<close>
proof -
  have "utf8_valid [65,66,67,68,69,70,71,72,73,74,75,76,77,78,79,80,81,82,83,84,85,86]"
    by code_simp
  then show ?thesis
    using is_base64_encoded_iff [of \<open>''QUJDREVGR0hJSktMTU5PUFFSU1RVVg==''\<close>] sample_b64 sample_b64_match
    by simp
qed

text \<open>
  Claim C5. A match whose extracted value is safe (stripped of surrounding quotes and in
  lower case it is one of \<^verbatim>\<open>SAFE_VALUES\<close>, or shorter than 4 characters, or made of one
  repeated character, or contains a placeholder indicator) is never reported: the match
  yields no finding, and no finding of any file carries that value.
\<close>

theorem safe_value_never_reported:
  assumes "clean v \<in> set SAFE_VALUES \<or> length (clean v) < 4 \<or> card (set (clean v)) = 1
           \<or> list_ex (\<lambda>indicator. contains (clean v) indicator) placeholder_indicators"
  shows "(extract_credential_value match_text = v \<longrightarrow>
            check_match file_path line_num line cred_type match_text = [])
         \<and> (n, c, t, v) \<notin> set (fst (find_hardcoded_credentials fs file_path))"
proof -
  from assms have safe: "is_safe_value v" by (simp add: is_safe_value_iff)
  then have "extract_credential_value match_text = v \<longrightarrow>
      check_match file_path line_num line cred_type match_text = []"
    by (auto simp: check_match_cases)
  moreover have "(n, c, t, v) \<notin> set (fst (find_hardcoded_credentials fs file_path))"
  proof
    assume "(n, c, t, v) \<in> set (fst (find_hardcoded_credentials fs file_path))"
    then obtain k l ct m where "(n, c, t, v) \<in> set (check_match file_path k l ct m)"
      unfolding cred_issues_iff by blast
    with safe show False by (auto simp: check_match_cases Let_def split: if_splits)
  qed
  ultimately show ?thesis by blast
qed

text \<open>The witness: the placeholder \<^verbatim>\<open>admin\<close> on line 2 of \<^verbatim>\<open>app.py\<close> matches and is not reported.\<close>

theorem safe_value_never_reported_witness:
  "clean ''admin'' \<in> set SAFE_VALUES
   \<and> placeholder_line \<in> set (re_finditer (hd (snd (hd CREDENTIAL_PATTERNS))) placeholder_line IGNORECASE)
   \<and> check_match ''app.py'' 2 placeholder_line ''password'' placeholder_line = []
   \<and> (2, placeholder_line, ''password'', ''admin'') \<notin> set (fst (find_hardcoded_credentials sample_fs ''app.py''))"
proof -
  have safe: "clean ''admin'' \<in> set SAFE_VALUES" by code_simp
  then have h: "clean ''admin'' \<in> set SAFE_VALUES \<or> length (clean ''admin'') < 4
      \<or> card (set (clean ''admin'')) = 1
      \<or> list_ex (\<lambda>indicator. contains (clean ''admin'') indicator) placeholder_indicators"
    by blast
  show ?thesis
    using safe placeholder_line_match placeholder_line_value
      safe_value_never_reported [OF h, of placeholder_line "''app.py''" 2 placeholder_line
        "''password''" 2 placeholder_line "''password''" sample_fs]
    by simp
qed

text \<open>
  Claim C6, as amended. For a match with a value that is not safe: when the path in lower
  case contains one of \<^verbatim>\<open>test\<close>, \<^verbatim>\<open>spec\<close>, \<^verbatim>\<open>mock\<close>, \<^verbatim>\<open>example\<close>, \<^verbatim>\<open>sample\<close>, \<^verbatim>\<open>demo\<close>, or the
  line in lower case matches one of \<^verbatim>\<open>SAFE_CONTEXT_PATTERNS\<close>, the match is reported exactly
  when the value is longer than 30 characters or is detected as base64; otherwise it is
  always reported. This is so of the finding the match loop appends, and of the findings
  returned for a file that the scanner reads.
\<close>

theorem reported_in_safe_context_iff:
  assumes "v = extract_credential_value match_text"
    and "\<not> is_safe_value v"
  shows "check_match file_path line_num line cred_type match_text =
           (if list_ex (\<lambda>test_indicator. contains (lower file_path) test_indicator) test_indicators
               \<or> list_ex (\<lambda>pattern. re_match pattern (lower line) no_flags) SAFE_CONTEXT_PATTERNS
            then if length v > 30 \<or> is_base64_encoded v
                 then [(line_num, strip line, cred_type, v)] else []
            else [(line_num, strip line, cred_type, v)])
         \<and> (fs file_path = Inr content
              \<and> \<not> list_ex (\<lambda>ext. endswith file_path ext) SKIP_EXTENSIONS
              \<and> j < length (split_on newline content)
              \<and> line = split_on newline content ! j
              \<and> (cred_type, pats) \<in> set CREDENTIAL_PATTERNS
              \<and> pattern \<in> set pats
              \<and> match_text \<in> set (re_finditer pattern line IGNORECASE)
            \<longrightarrow> ((1 + j, strip line, cred_type, v) \<in> set (fst (find_hardcoded_credentials fs file_path)) \<longleftrightarrow>
                   (if list_ex (\<lambda>test_indicator. contains (lower file_path) test_indicator) test_indicators
                       \<or> list_ex (\<lambda>pattern. re_match pattern (lower line) no_flags) SAFE_CONTEXT_PATTERNS
                    then length v > 30 \<or> is_base64_encoded v
                    else True)))"
proof -
  let ?cond = "is_safe_context line file_path \<longrightarrow> length v > 30 \<or> is_base64_encoded v"
  have ctx: "is_safe_context line file_path \<longleftrightarrow>
      list_ex (\<lambda>test_indicator. contains (lower file_path) test_indicator) test_indicators
      \<or> list_ex (\<lambda>pattern. re_match pattern (lower line) no_flags) SAFE_CONTEXT_PATTERNS"
    by (simp add: is_safe_context_def)
  have own: "check_match file_path n line cred_type match_text =
      (if ?cond then [(n, strip line, cred_type, v)] else [])" for n
    using assms by (auto simp: check_match_cases Let_def)
  have in_file: "(1 + j, strip line, cred_type, v) \<in> set (fst (find_hardcoded_credentials fs file_path)) \<longleftrightarrow> ?cond"
    if readable: "fs file_path = Inr content"
      and kept: "\<not> list_ex (\<lambda>ext. endswith file_path ext) SKIP_EXTENSIONS"
      and j: "j < length (split_on newline content)"
      and line: "line = split_on newline content ! j"
      and table: "(cred_type, pats) \<in> set CREDENTIAL_PATTERNS" "pattern \<in> set pats"
      and found: "match_text \<in> set (re_finditer pattern line IGNORECASE)"
  proof
    assume "(1 + j, strip line, cred_type, v) \<in> set (fst (find_hardcoded_credentials fs file_path))"
    then obtain k ct m where k: "k < length (split_on newline content)"
      and mem: "(1 + j, strip line, cred_type, v)
                  \<in> set (check_match file_path (1 + k) (split_on newline content ! k) ct m)"
      unfolding cred_issues_iff using readable by auto
    from mem have "1 + j = 1 + k" using check_match_fst by fastforce
    then have "split_on newline content ! k = line" using line by simp
    with mem show ?cond
      by (auto simp: check_match_cases Let_def split: if_splits)
  next
    assume ?cond
    with own have "(1 + j, strip line, cred_type, v)
        \<in> set (check_match file_path (1 + j) line cred_type match_text)" by simp
    moreover have "strip line \<noteq> []"
      using table found by (rule credential_match_not_blank)
    ultimately show "(1 + j, strip line, cred_type, v) \<in> set (fst (find_hardcoded_credentials fs file_path))"
      unfolding cred_issues_iff using readable kept j line table found by blast
  qed
  show ?thesis
    using own [of line_num] in_file ctx by auto
qed

text \<open>
  The witness: the same line is reported in \<^verbatim>\<open>app.py\<close> and not in \<^verbatim>\<open>Test.py\<close>, whose path
  in lower case contains \<^verbatim>\<open>test\<close>.
\<close>

theorem reported_in_safe_context_witness:
  "check_match ''app.py'' 1 secret_line ''password'' secret_line
     = [(1, secret_line, ''password'', ''hunter2abc'')]
   \<and> check_match ''Test.py'' 1 secret_line ''password'' secret_line = []
   \<and> (1, secret_line, ''password'', ''hunter2abc'') \<in> set (fst (find_hardcoded_credentials sample_fs ''app.py''))
   \<and> (1, secret_line, ''password'', ''hunter2abc'') \<notin> set (fst (find_hardcoded_credentials sample_fs ''Test.py''))"
proof -
  have app: "sample_fs ''app.py'' = Inr (secret_line @ [newline] @ placeholder_line @ [newline])"
    and test: "sample_fs ''Test.py'' = Inr secret_line"
    by (simp_all add: sample_fs_def)
  have m: "secret_line \<in> set (re_finditer (hd (snd (hd CREDENTIAL_PATTERNS))) secret_line IGNORECASE)"
    by (simp add: secret_line_match)
  have v: "''hunter2abc'' = extract_credential_value secret_line"
    by (simp add: secret_line_value)
  note in_app = reported_in_safe_context_iff [where fs = sample_fs and file_path = "''app.py''"
        and content = "secret_line @ [newline] @ placeholder_line @ [newline]" and j = 0
        and line = secret_line and cred_type = "''password''" and pats = "snd (hd CREDENTIAL_PATTERNS)"
        and pattern = "hd (snd (hd CREDENTIAL_PATTERNS))" and match_text = secret_line
        and v = "''hunter2abc''" and line_num = 1, OF v secret_not_safe]
  note in_Test = reported_in_safe_context_iff [where fs = sample_fs and file_path = "''Test.py''"
        and content = secret_line and j = 0
        and line = secret_line and cred_type = "''password''" and pats = "snd (hd CREDENTIAL_PATTERNS)"
        and pattern = "hd (snd (hd CREDENTIAL_PATTERNS))" and match_text = secret_line
        and v = "''hunter2abc''" and line_num = 1, OF v secret_not_safe]
  have "check_match ''app.py'' 1 secret_line ''password'' secret_line
     = [(1, secret_line, ''password'', ''hunter2abc'')]"
    using in_app [THEN conjunct1] app_context by (simp add: secret_line_strip)
  moreover have "check_match ''Test.py'' 1 secret_line ''password'' secret_line = []"
    using in_Test [THEN conjunct1] Test_context secret_short by simp
  moreover have "(1 + 0, strip secret_line, ''password'', ''hunter2abc'')
          \<in> set (fst (find_hardcoded_credentials sample_fs ''app.py''))"
    using in_app [THEN conjunct2] app first_pattern m sample_not_skipped app_lines app_context
    by simp
  moreover have "(1 + 0, strip secret_line, ''password'', ''hunter2abc'')
          \<notin> set (fst (find_hardcoded_credentials sample_fs ''Test.py''))"
    using in_Test [THEN conjunct2] test first_pattern m sample_not_skipped Test_lines Test_context secret_short
    by simp
  ultimately show ?thesis by (simp add: secret_line_strip)
qed

text \<open>
  Claim C6 as it is worded takes the path as written. \<^verbatim>\<open>Test.py\<close> does not contain
  \<^verbatim>\<open>test\<close> and its line matches no safe-context pattern, so the match would always be
  reported; the scanner reports nothing.
\<close>

theorem exact_path_context_counterexample:
  "\<not> safe_context_of_exact_path secret_line ''Test.py''
   \<and> sample_fs ''Test.py'' = Inr secret_line
   \<and> secret_line \<in> set (re_finditer (hd (snd (hd CREDENTIAL_PATTERNS))) secret_line IGNORECASE)
   \<and> extract_credential_value secret_line = ''hunter2abc''
   \<and> \<not> is_safe_value ''hunter2abc''
   \<and> fst (find_hardcoded_credentials sample_fs ''Test.py'') = []"
  using Test_exact_context secret_line_match secret_line_value secret_not_safe sample_Test_credentials
  by (simp add: sample_fs_def)

text \<open>
  Claim C10. The findings of \<^verbatim>\<open>find_hardcoded_credentials\<close> and of \<^verbatim>\<open>find_hardcoded_urls\<close>
  are in non-decreasing order of line number, and every line number is between 1 and the
  number of lines of the file.
\<close>

theorem findings_sorted_in_range:
  "sorted (map fst (fst (find_hardcoded_credentials fs p)))
   \<and> list_all (\<lambda>i. 1 \<le> fst i \<and> fst i \<le> line_count fs p) (fst (find_hardcoded_credentials fs p))
   \<and> sorted (map fst (fst (find_hardcoded_urls fs p)))
   \<and> list_all (\<lambda>i. 1 \<le> fst i \<and> fst i \<le> line_count fs p) (fst (find_hardcoded_urls fs p))"
  using cred_sorted url_sorted cred_line_numbers url_line_numbers
  by (simp add: list_all_iff)

text \<open>The witness: the finding on line 1 of the two-line \<^verbatim>\<open>app.py\<close>, and on the one line of \<^verbatim>\<open>site.py\<close>.\<close>

theorem findings_sorted_in_range_witness:
  "fst (find_hardcoded_credentials sample_fs ''app.py'') \<noteq> []
   \<and> sorted (map fst (fst (find_hardcoded_credentials sample_fs ''app.py'')))
   \<and> list_all (\<lambda>i. 1 \<le> fst i \<and> fst i \<le> 2) (fst (find_hardcoded_credentials sample_fs ''app.py''))
   \<and> fst (find_hardcoded_urls sample_fs ''site.py'') \<noteq> []
   \<and> sorted (map fst (fst (find_hardcoded_urls sample_fs ''site.py'')))
   \<and> list_all (\<lambda>i. 1 \<le> fst i \<and> fst i \<le> 1) (fst (find_hardcoded_urls sample_fs ''site.py''))"
  using findings_sorted_in_range [of sample_fs "''app.py''"]
    findings_sorted_in_range [of sample_fs "''site.py''"]
    sample_line_counts sample_app_credentials sample_site_urls
  by simp

text \<open>
  Claim C7. \<^verbatim>\<open>has_license_header\<close> is true exactly when a pattern of \<^verbatim>\<open>LICENSE_PATTERNS\<close>
  is found, ignoring case, in the first 20 lines of the file; two files with the same
  first 20 lines get the same result.
\<close>

theorem license_header_first_20_lines:
  "(fst (has_license_header fs p) \<longleftrightarrow>
      list_ex (\<lambda>(license_type, patterns).
         list_ex (\<lambda>pattern. re_search pattern (read_file_head fs p 20) IGNORECASE_MULTILINE \<noteq> None) patterns)
        LICENSE_PATTERNS)
   \<and> (fs p = Inr content \<longrightarrow> read_file_head fs p 20 = concat (take 20 (readlines content)))
   \<and> (fs p = Inr content \<and> fs' p' = Inr content'
        \<and> take 20 (readlines content) = take 20 (readlines content')
        \<longrightarrow> has_license_header fs p = has_license_header fs' p')"
  using has_license_header_iff [of fs p]
  by (auto simp: read_file_head_def has_license_header_def Let_def)

text \<open>
  The witness: a notice on line 20 is found; a notice on line 21 is not, and the file is
  treated as one whose line 21 is code.
\<close>

theorem license_header_first_20_lines_witness:
  "fst (has_license_header license_fs ''a.py'')
   \<and> read_file_head license_fs ''a.py'' 20 = concat (take 20 (readlines notice_on_line_20))
   \<and> \<not> fst (has_license_header license_fs ''b.py'')
   \<and> has_license_header license_fs ''b.py'' = has_license_header license_fs ''c.py''"
proof -
  have a: "license_fs ''a.py'' = Inr notice_on_line_20"
    and b: "license_fs ''b.py'' = Inr notice_on_line_21"
    and c: "license_fs ''c.py'' = Inr code_on_line_21"
    by (simp_all add: license_fs_def)
  have "has_license_header license_fs ''b.py'' = has_license_header license_fs ''c.py''"
    using license_header_first_20_lines [of license_fs "''b.py''" notice_on_line_21 license_fs "''c.py''" code_on_line_21]
      b c sample_heads by simp
  moreover have "read_file_head license_fs ''a.py'' 20 = concat (take 20 (readlines notice_on_line_20))"
    using license_header_first_20_lines [of license_fs "''a.py''" notice_on_line_20] a by simp
  ultimately show ?thesis
    using sample_a_license sample_c_license by simp
qed

text \<open>
  Claim C9. \<^verbatim>\<open>validate_xml_file\<close> returns a pair for every path and never raises, so the
  \<^verbatim>\<open>FileNotFoundError\<close> handler of \<^verbatim>\<open>main\<close> is never entered; a missing file is reported
  through the generic error branch, with exit code 1.
\<close>

theorem validate_xml_file_never_raises:
  "(\<exists>is_valid error_msg. validate_xml_file fs parser p = Inr (is_valid, error_msg))
   \<and> (\<exists>exit_code out. xml_main fs parser a = Inr (exit_code, out) \<and> XmlNotFound q \<notin> set out)
   \<and> (fs p = Inl (FileNotFoundError m) \<longrightarrow>
        validate_xml_file fs parser p = Inr (False, Some (''Unexpected error: '' @ m))
        \<and> (p \<in> set (files a) \<longrightarrow>
             (\<exists>out. xml_main fs parser a = Inr (1, out)
                    \<and> XmlInvalid p (Some (''Unexpected error: '' @ m)) \<in> set out)))"
proof -
  have main: "xml_main fs parser a =
      Inr (if list_ex (xml_invalid fs parser) (files a) then 1 else 0, map (xml_line fs parser) (files a))"
    by (simp add: xml_main_def xml_loop_eq)
  have "XmlNotFound q \<notin> set (map (xml_line fs parser) (files a))"
  proof
    assume "XmlNotFound q \<in> set (map (xml_line fs parser) (files a))"
    then obtain x where "xml_line fs parser x = XmlNotFound q" by auto
    then show False using xml_line_never_not_found by blast
  qed
  with main have second: "\<exists>exit_code out. xml_main fs parser a = Inr (exit_code, out) \<and> XmlNotFound q \<notin> set out"
    by blast
  have third: "\<exists>out. xml_main fs parser a = Inr (1, out)
                    \<and> XmlInvalid p (Some (''Unexpected error: '' @ m)) \<in> set out"
    if miss: "fs p = Inl (FileNotFoundError m)" and mem: "p \<in> set (files a)"
  proof -
    have v: "validate_xml_file fs parser p = Inr (False, Some (''Unexpected error: '' @ m))"
      using miss by (rule missing_file_validate)
    then have "xml_invalid fs parser p" by (simp add: xml_invalid_def)
    with mem have "list_ex (xml_invalid fs parser) (files a)" by (auto simp: list_ex_iff)
    moreover have "xml_line fs parser p = XmlInvalid p (Some (''Unexpected error: '' @ m))"
      using v by (simp add: xml_line_def)
    then have "XmlInvalid p (Some (''Unexpected error: '' @ m)) \<in> set (map (xml_line fs parser) (files a))"
      using mem by force
    ultimately show ?thesis using main by simp
  qed
  show ?thesis
    using validate_xml_file_total second third missing_file_validate by blast
qed

text \<open>The witness: a run on one missing file.\<close>

theorem validate_xml_file_never_raises_witness:
  "validate_xml_file sample_fs (\<lambda>content. None) ''gone.xml''
      = Inr (False, Some ''Unexpected error: [Errno 2] No such file or directory: gone.xml'')
   \<and> (\<exists>out. xml_main sample_fs (\<lambda>content. None) \<lparr>files = [''gone.xml'']\<rparr> = Inr (1, out)
           \<and> XmlNotFound ''gone.xml'' \<notin> set out)"
proof -
  have miss: "sample_fs ''gone.xml'' = Inl (FileNotFoundError ''[Errno 2] No such file or directory: gone.xml'')"
    by (simp add: sample_fs_def)
  have mem: "''gone.xml'' \<in> set (files \<lparr>files = [''gone.xml'']\<rparr>)" by simp
  from validate_xml_file_never_raises [of sample_fs "\<lambda>content. None" "''gone.xml''"
      "\<lparr>files = [''gone.xml'']\<rparr>" "''gone.xml''" "''[Errno 2] No such file or directory: gone.xml''"]
  show ?thesis using miss mem by auto
qed












end
